theory Spec2Isabelle
  imports Main "HOL-Library.Word"
begin

unbundle bit_operations_syntax

section \<open>usbxbm device firmware: session protocol and frame receiver\<close>

text \<open>
  The firmware's main file keeps three globals (\<open>state\<close>, \<open>recv_len\<close>, \<open>recv_cnt\<close>)
  and implements two V-USB callbacks, \<open>usbFunctionSetup\<close> and \<open>usbFunctionWrite\<close>.
  Both talk to the panel only through the four function pointers of the global
  \<open>display\<close> struct. The callbacks return \<open>void\<close> and the firmware never reads anything
  back from them, so the model records every call through the struct, in order, in
  the field \<open>calls\<close>; what a recorded call does to the hardware is given separately by
  the backend (\<open>run_calls\<close> below). The callbacks are taken to return.
\<close>

type_synonym u8 = "8 word"
type_synonym u16 = "16 word"

subsection \<open>display.h\<close>

text \<open>The anonymous \<open>properties\<close> struct of \<open>display_t\<close>; \<open>identifier\<close> is \<open>char[20]\<close>.\<close>

record properties_t =
  res_x :: u16
  res_y :: u16
  color_bits :: u8
  "identifier" :: "u8 list"

text \<open>\<open>display_t\<close>: four function pointers acting on the hardware, and the properties.\<close>

record 'hw display_t =
  init :: "'hw \<Rightarrow> 'hw"
  frame_start :: "'hw \<Rightarrow> 'hw"
  send_byte :: "u8 \<Rightarrow> 'hw \<Rightarrow> 'hw"
  frame_done :: "'hw \<Rightarrow> 'hw"
  properties :: properties_t

text \<open>One call through a function pointer of the display struct.\<close>

datatype display_call = Init | FrameStart | SendByte u8 | FrameDone

fun run_call :: "'hw display_t \<Rightarrow> 'hw \<Rightarrow> display_call \<Rightarrow> 'hw" where
  "run_call d hw Init = init d hw"
| "run_call d hw FrameStart = frame_start d hw"
| "run_call d hw (SendByte b) = send_byte d b hw"
| "run_call d hw FrameDone = frame_done d hw"

definition run_calls :: "'hw display_t \<Rightarrow> display_call list \<Rightarrow> 'hw \<Rightarrow> 'hw" where
  "run_calls d cs hw = foldl (run_call d) hw cs"

text \<open>
  A C string literal initialising a \<open>char\<close> array of \<open>n\<close> bytes: the characters,
  then zero bytes up to the size of the array.
\<close>

definition c_string :: "nat \<Rightarrow> string \<Rightarrow> u8 list" where
  "c_string n str = map of_char str @ replicate (n - length str) 0"

text \<open>
  The bytes of a \<open>uint16_t\<close> and of the properties struct in memory, as avr-gcc lays
  them out (little-endian, no padding: the Makefile passes \<open>-fpack-struct\<close>, and the
  AVR aligns to one byte anyway). This is what a \<open>uint8_t *\<close> to the struct reads.
\<close>

definition le16 :: "u16 \<Rightarrow> u8 list" where
  "le16 w = [ucast w, ucast (drop_bit 8 w)]"

definition properties_bytes :: "properties_t \<Rightarrow> u8 list" where
  "properties_bytes p = le16 (res_x p) @ le16 (res_y p) @ [color_bits p] @ identifier p"

text \<open>\<open>sizeof(display.properties)\<close>: 2 + 2 + 1 + 20 bytes.\<close>

definition sizeof_properties :: u8 where
  "sizeof_properties = 25"

subsection \<open>The main file: constants and globals\<close>

text \<open>\<open>uint8_t banner[] = "RUDY usbxbm " VERSION;\<close> with \<open>VERSION\<close> \<open>"1.0"\<close>: the array
  holds the characters and the terminating zero byte.\<close>

definition VERSION :: string where
  "VERSION = ''1.0''"

definition banner :: "u8 list" where
  "banner = map of_char (''RUDY usbxbm '' @ VERSION) @ [0]"

definition sizeof_banner :: u8 where
  "sizeof_banner = of_nat (length banner)"

definition CMD_HELLO :: u8 where "CMD_HELLO = 0x55"
definition CMD_PROPS :: u8 where "CMD_PROPS = 0x10"
definition CMD_DATA :: u8 where "CMD_DATA = 0x20"
definition CMD_RESET :: u8 where "CMD_RESET = 0xf0"
definition CMD_BYE :: u8 where "CMD_BYE = 0xaa"

definition ST_IDLE :: u8 where "ST_IDLE = 0"
definition ST_READY :: u8 where "ST_READY = 1"

definition HELLO_VALUE :: u16 where "HELLO_VALUE = 0x4d6f"
definition HELLO_INDEX :: u16 where "HELLO_INDEX = 0x6921"

text \<open>
  V-USB's \<open>usbdrv.h\<close> is not part of the firmware's own sources. It declares the setup
  request \<open>usbRequest_t\<close> (an 8-byte packet read through its fields), the pointer
  \<open>usbMsgPtr\<close> to the reply the driver sends, and \<open>USB_NO_MSG\<close> as
  \<open>((usbMsgLen_t)-1)\<close>, which is 255 as the \<open>uchar\<close> that \<open>usbFunctionSetup\<close> returns.
\<close>

record usbRequest_t =
  bmRequestType :: u8
  bRequest :: u8
  wValue :: u16
  wIndex :: u16
  wLength :: u16

definition USB_NO_MSG :: u8 where
  "USB_NO_MSG = 0xff"

text \<open>
  The globals: \<open>state\<close>, \<open>recv_len\<close>, \<open>recv_cnt\<close>; V-USB's \<open>usbMsgPtr\<close>, held as the
  bytes of the object it points at; and the calls made through the display struct so
  far, oldest first.
\<close>

record device =
  state :: u8
  recv_len :: u16
  recv_cnt :: u16
  usbMsgPtr :: "u8 list"
  calls :: "display_call list"

definition display_call :: "display_call \<Rightarrow> device \<Rightarrow> device" where
  "display_call c s = s\<lparr>calls := calls s @ [c]\<rparr>"

subsection \<open>usbFunctionSetup\<close>

text \<open>
  The \<open>switch\<close> on \<open>rq->bRequest\<close>. Every case that does not return inside its \<open>if\<close>
  breaks to the final \<open>return 0\<close>. The result is the returned \<open>uchar\<close> and the globals
  after the call.
\<close>

definition usbFunctionSetup :: "'hw display_t \<Rightarrow> usbRequest_t \<Rightarrow> device \<Rightarrow> u8 \<times> device" where
  "usbFunctionSetup d rq s =
    (if bRequest rq = CMD_HELLO then
       (if wValue rq = HELLO_VALUE \<and> wIndex rq = HELLO_INDEX then
          (let s1 = (if state s \<noteq> ST_IDLE then display_call Init s else s);
               s2 = s1\<lparr>state := ST_READY\<rparr>;
               s3 = s2\<lparr>usbMsgPtr := banner\<rparr>
           in (sizeof_banner, s3))
        else (0, s))
     else if bRequest rq = CMD_PROPS then
       (if state s = ST_READY then
          (sizeof_properties, s\<lparr>usbMsgPtr := properties_bytes (properties d)\<rparr>)
        else (0, s))
     else if bRequest rq = CMD_DATA then
       (if state s = ST_READY then
          (let s1 = s\<lparr>recv_cnt := 0\<rparr>;
               s2 = s1\<lparr>recv_len := wLength rq\<rparr>;
               s3 = display_call FrameStart s2
           in (USB_NO_MSG, s3))
        else (0, s))
     else if bRequest rq = CMD_RESET then
       (if state s = ST_READY then (0, display_call Init s) else (0, s))
     else if bRequest rq = CMD_BYE then
       (0, s\<lparr>state := ST_IDLE\<rparr>)
     else (0, s))"

subsection \<open>usbFunctionWrite\<close>

text \<open>
  The \<open>for\<close> loop, from loop variable \<open>i\<close> (\<open>uint8_t\<close>) on: while
  \<open>recv_cnt < recv_len && i < len\<close>, call \<open>display.send_byte(data[i])\<close>, then \<open>i++\<close> and
  \<open>recv_cnt++\<close>. \<open>data\<close> is the chunk V-USB hands over, \<open>len\<close> its length.
\<close>

function write_loop :: "u8 list \<Rightarrow> u8 \<Rightarrow> u8 \<Rightarrow> device \<Rightarrow> device" where
  "write_loop data len i s =
    (if recv_cnt s < recv_len s \<and> i < len then
       write_loop data len (i + 1)
         ((display_call (SendByte (data ! unat i)) s)\<lparr>recv_cnt := recv_cnt s + 1\<rparr>)
     else s)"
  by pat_completeness auto
termination
proof (relation "measure (\<lambda>(data, len, i, s). unat len - unat i)")
  show "wf (measure (\<lambda>(data, len, i, s). unat len - unat i))"
    by simp
next
  fix data :: "u8 list" and len i :: u8 and s :: device
  assume "recv_cnt s < recv_len s \<and> i < len"
  then have lt: "i < len" by simp
  then have "unat (i + 1) = Suc (unat i)"
    by unat_arith
  moreover from lt have "unat i < unat len"
    by (simp add: word_less_nat_alt)
  ultimately show "((data, len, i + 1,
      (display_call (SendByte (data ! unat i)) s)\<lparr>recv_cnt := recv_cnt s + 1\<rparr>),
      (data, len, i, s)) \<in> measure (\<lambda>(data, len, i, s). unat len - unat i)"
    by simp
qed

text \<open>
  After the loop, \<open>display.frame_done()\<close> is called if \<open>recv_cnt == recv_len\<close>, and
  that comparison is the value returned (1 or 0).
\<close>

definition usbFunctionWrite :: "u8 list \<Rightarrow> u8 \<Rightarrow> device \<Rightarrow> u8 \<times> device" where
  "usbFunctionWrite data len s =
    (let s1 = write_loop data len 0 s;
         s2 = (if recv_cnt s1 = recv_len s1 then display_call FrameDone s1 else s1)
     in (if recv_cnt s2 = recv_len s2 then 1 else 0, s2))"

declare write_loop.simps [simp del]

subsection \<open>main and the transport\<close>

text \<open>
  The globals at power-up: \<open>state\<close> is initialised to \<open>ST_IDLE\<close>, the two static
  counters are zero, nothing has been called and no reply is set.
\<close>

definition power_up :: device where
  "power_up = \<lparr>state = ST_IDLE, recv_len = 0, recv_cnt = 0, usbMsgPtr = [], calls = []\<rparr>"

text \<open>
  \<open>main\<close> calls \<open>display.init()\<close>, sets up USB and then polls V-USB forever. Each
  poll may run one of the two callbacks: \<open>usbFunctionSetup\<close> for a setup packet, or
  \<open>usbFunctionWrite\<close> for a chunk of a data stage. \<open>main\<close> never returns; \<open>main d evs\<close>
  is the globals once the callbacks for the events \<open>evs\<close> have run, in order. Any
  interleaving of the two callbacks is admitted.
\<close>

datatype usb_event = Setup usbRequest_t | Write "u8 list" u8

fun usbPoll :: "'hw display_t \<Rightarrow> device \<Rightarrow> usb_event \<Rightarrow> device" where
  "usbPoll d s (Setup rq) = snd (usbFunctionSetup d rq s)"
| "usbPoll d s (Write data len) = snd (usbFunctionWrite data len s)"

definition main :: "'hw display_t \<Rightarrow> usb_event list \<Rightarrow> device" where
  "main d evs = foldl (usbPoll d) (display_call Init power_up) evs"

text \<open>
  The data stage of one transfer: V-USB calls \<open>usbFunctionWrite\<close> once per chunk with
  the chunk and its length. The length is a \<open>uchar\<close>, so a chunk has at most 255
  bytes; the facts about \<open>deliver\<close> below are stated for such chunks.
\<close>

definition deliver :: "device \<Rightarrow> u8 list list \<Rightarrow> device" where
  "deliver s frags = foldl (\<lambda>s f. snd (usbFunctionWrite f (of_nat (length f)) s)) s frags"

text \<open>Bytes still expected by the transfer in progress.\<close>

definition remaining :: "device \<Rightarrow> nat" where
  "remaining s = unat (recv_len s) - unat (recv_cnt s)"

subsection \<open>The session as the specification words it\<close>

text \<open>
  A Hello with matching magic values, and a Bye, among the events; the events after
  the most recent such Hello (\<open>None\<close> if there was none); and the specification's
  condition "the most recent Hello with matching magic values has not been followed
  by a Bye".
\<close>

fun valid_hello :: "usb_event \<Rightarrow> bool" where
  "valid_hello (Setup rq) =
     (bRequest rq = CMD_HELLO \<and> wValue rq = HELLO_VALUE \<and> wIndex rq = HELLO_INDEX)"
| "valid_hello (Write data len) = False"

fun is_bye :: "usb_event \<Rightarrow> bool" where
  "is_bye (Setup rq) = (bRequest rq = CMD_BYE)"
| "is_bye (Write data len) = False"

fun after_last_hello :: "usb_event list \<Rightarrow> usb_event list option" where
  "after_last_hello [] = None"
| "after_last_hello (e # es) =
     (case after_last_hello es of
        Some r \<Rightarrow> Some r
      | None \<Rightarrow> if valid_hello e then Some es else None)"

definition session_open :: "usb_event list \<Rightarrow> bool" where
  "session_open evs =
     (case after_last_hello evs of None \<Rightarrow> False | Some r \<Rightarrow> filter is_bye r = [])"

subsection \<open>nokia5110.c\<close>

text \<open>
  The registers of the ATmega328P the backend touches, and what the SPI peripheral
  has clocked out: each byte with the level of port B (reset, chip enable and
  data/command lines) at that moment. Bit numbers are those of avr-libc's
  \<open>avr/io.h\<close> for this chip.
\<close>

record avr =
  DDRB :: u8
  PORTB :: u8
  SPCR :: u8
  SPSR :: u8
  SPDR :: u8
  spi_out :: "(u8 \<times> u8) list"

definition PB0 :: nat where "PB0 = 0"
definition PB1 :: nat where "PB1 = 1"
definition PB2 :: nat where "PB2 = 2"
definition DDB3 :: nat where "DDB3 = 3"
definition DDB5 :: nat where "DDB5 = 5"
definition SPR0 :: nat where "SPR0 = 0"
definition SPR1 :: nat where "SPR1 = 1"
definition CPHA :: nat where "CPHA = 2"
definition CPOL :: nat where "CPOL = 3"
definition MSTR :: nat where "MSTR = 4"
definition DORD :: nat where "DORD = 5"
definition SPE :: nat where "SPE = 6"
definition SPI2X :: nat where "SPI2X = 0"
definition SPIF :: nat where "SPIF = 7"

definition X_RES :: nat where "X_RES = 84"
definition Y_RES :: nat where "Y_RES = 48"

definition LCD_RESET_PIN :: nat where "LCD_RESET_PIN = PB0"
definition SPI_CS_PIN :: nat where "SPI_CS_PIN = PB2"
definition SPI_DC_PIN :: nat where "SPI_DC_PIN = PB1"

definition lcd_rst_high :: "avr \<Rightarrow> avr" where
  "lcd_rst_high hw = hw\<lparr>PORTB := PORTB hw OR push_bit LCD_RESET_PIN 1\<rparr>"

definition lcd_rst_low :: "avr \<Rightarrow> avr" where
  "lcd_rst_low hw = hw\<lparr>PORTB := PORTB hw AND NOT (push_bit LCD_RESET_PIN 1)\<rparr>"

definition spi_cs_high :: "avr \<Rightarrow> avr" where
  "spi_cs_high hw = hw\<lparr>PORTB := PORTB hw OR push_bit SPI_CS_PIN 1\<rparr>"

definition spi_cs_low :: "avr \<Rightarrow> avr" where
  "spi_cs_low hw = hw\<lparr>PORTB := PORTB hw AND NOT (push_bit SPI_CS_PIN 1)\<rparr>"

definition spi_dc_high :: "avr \<Rightarrow> avr" where
  "spi_dc_high hw = hw\<lparr>PORTB := PORTB hw OR push_bit SPI_DC_PIN 1\<rparr>"

definition spi_dc_low :: "avr \<Rightarrow> avr" where
  "spi_dc_low hw = hw\<lparr>PORTB := PORTB hw AND NOT (push_bit SPI_DC_PIN 1)\<rparr>"

abbreviation "lcd_spi_enable \<equiv> spi_cs_low"
abbreviation "lcd_spi_disable \<equiv> spi_cs_high"
abbreviation "lcd_command_mode \<equiv> spi_dc_low"
abbreviation "lcd_data_mode \<equiv> spi_dc_high"

definition port_setup :: "avr \<Rightarrow> avr" where
  "port_setup hw =
    (let hw1 = hw\<lparr>DDRB := DDRB hw OR push_bit LCD_RESET_PIN 1\<rparr>;
         hw2 = hw1\<lparr>DDRB := DDRB hw1 OR push_bit SPI_CS_PIN 1\<rparr>;
         hw3 = hw2\<lparr>DDRB := DDRB hw2 OR push_bit SPI_DC_PIN 1\<rparr>
     in hw3\<lparr>DDRB := DDRB hw3 OR (push_bit DDB3 1 OR push_bit DDB5 1)\<rparr>)"

text \<open>\<open>_delay_ms\<close> busy-waits; it changes none of the registers above.\<close>

definition delay_ms :: "nat \<Rightarrow> avr \<Rightarrow> avr" where
  "delay_ms n hw = hw"

definition nokia5110_reset :: "avr \<Rightarrow> avr" where
  "nokia5110_reset hw = lcd_rst_high (delay_ms 50 (lcd_rst_low hw))"

definition spi_init :: "avr \<Rightarrow> avr" where
  "spi_init hw =
    (let hw1 = hw\<lparr>SPCR := push_bit SPE 1 OR push_bit MSTR 1\<rparr>;
         hw2 = hw1\<lparr>SPCR := SPCR hw1 OR (push_bit CPOL 0 OR push_bit CPHA 0)\<rparr>;
         hw3 = hw2\<lparr>SPCR := SPCR hw2 OR (push_bit SPR0 0 OR push_bit SPR1 0)\<rparr>;
         hw4 = hw3\<lparr>SPCR := SPCR hw3 OR push_bit DORD 0\<rparr>
     in hw4\<lparr>SPSR := SPSR hw4 OR push_bit SPI2X 1\<rparr>)"

text \<open>
  \<open>spi_send_byte\<close> writes \<open>SPDR\<close> and waits until the peripheral raises \<open>SPIF\<close> in
  \<open>SPSR\<close>. The peripheral is taken to finish every transfer: the byte goes out with
  the port lines as they are, and the flag is set when the wait ends.
\<close>

definition spi_send_byte :: "u8 \<Rightarrow> avr \<Rightarrow> avr" where
  "spi_send_byte data hw =
     hw\<lparr>SPDR := data,
        spi_out := spi_out hw @ [(PORTB hw, data)],
        SPSR := SPSR hw OR push_bit SPIF 1\<rparr>"

text \<open>
  The splash loop of \<open>nokia5110_init\<close>, from \<open>i\<close> (\<open>uint16_t\<close>) on. The image
  \<open>nokia_gfx_nokia_splash\<close> lives in a generated file; \<open>gfx k\<close> stands for
  \<open>pgm_read_byte(&(nokia_gfx_nokia_splash[k]))\<close>.
\<close>

function splash_loop :: "(nat \<Rightarrow> u8) \<Rightarrow> u16 \<Rightarrow> avr \<Rightarrow> avr" where
  "splash_loop gfx i hw =
    (if unat i < X_RES * (Y_RES div 8) then
       splash_loop gfx (i + 1) (spi_send_byte (gfx (unat i)) hw)
     else hw)"
  by pat_completeness auto
termination
proof (relation "measure (\<lambda>(gfx, i, hw). X_RES * (Y_RES div 8) - unat i)")
  show "wf (measure (\<lambda>(gfx, i, hw). X_RES * (Y_RES div 8) - unat i))"
    by simp
next
  fix gfx :: "nat \<Rightarrow> u8" and i :: u16 and hw :: avr
  assume a: "unat i < X_RES * (Y_RES div 8)"
  then have "i < (504 :: u16)"
    by (simp add: X_RES_def Y_RES_def word_less_nat_alt)
  moreover have "i < m \<Longrightarrow> unat (i + 1) = Suc (unat i)" for m :: u16
    by unat_arith
  ultimately have "unat (i + 1) = Suc (unat i)"
    by blast
  with a show "((gfx, i + 1, spi_send_byte (gfx (unat i)) hw), (gfx, i, hw))
      \<in> measure (\<lambda>(gfx, i, hw). X_RES * (Y_RES div 8) - unat i)"
    by simp
qed

declare splash_loop.simps [simp del]

definition nokia5110_init :: "(nat \<Rightarrow> u8) \<Rightarrow> avr \<Rightarrow> avr" where
  "nokia5110_init gfx hw =
    (let hw = port_setup hw;
         hw = spi_init hw;
         hw = nokia5110_reset hw;
         hw = lcd_spi_enable hw;
         hw = lcd_command_mode hw;
         hw = spi_send_byte 0x21 hw;
         hw = spi_send_byte 0xc8 hw;
         hw = spi_send_byte 0x06 hw;
         hw = spi_send_byte 0x12 hw;
         hw = spi_send_byte 0x20 hw;
         hw = spi_send_byte 0x08 hw;
         hw = spi_send_byte 0x0c hw;
         hw = spi_send_byte 0x80 hw;
         hw = spi_send_byte 0x40 hw;
         hw = lcd_data_mode hw;
         hw = splash_loop gfx 0 hw
     in lcd_spi_disable hw)"

definition nokia5110_frame_start :: "avr \<Rightarrow> avr" where
  "nokia5110_frame_start hw =
    (let hw = lcd_spi_enable hw;
         hw = lcd_command_mode hw;
         hw = spi_send_byte 0x80 hw;
         hw = spi_send_byte 0x40 hw
     in lcd_data_mode hw)"

definition nokia5110_frame_done :: "avr \<Rightarrow> avr" where
  "nokia5110_frame_done hw = lcd_spi_disable hw"

text \<open>The display struct of the Nokia 5110 build.\<close>

definition display :: "(nat \<Rightarrow> u8) \<Rightarrow> avr display_t" where
  "display gfx =
    \<lparr>init = nokia5110_init gfx,
     frame_start = nokia5110_frame_start,
     send_byte = spi_send_byte,
     frame_done = nokia5110_frame_done,
     properties =
       \<lparr>res_x = of_nat X_RES,
        res_y = of_nat Y_RES,
        color_bits = 1,
        identifier = c_string 20 ''Nokia 5110''\<rparr>\<rparr>"

text \<open>
  The part of \<open>nokia5110_init\<close> before it addresses the frame: pins, SPI, hardware
  reset, chip enable, command mode and the seven configuration commands.
\<close>

definition nokia5110_init_config :: "avr \<Rightarrow> avr" where
  "nokia5110_init_config hw =
    (let hw = port_setup hw;
         hw = spi_init hw;
         hw = nokia5110_reset hw;
         hw = lcd_spi_enable hw;
         hw = lcd_command_mode hw;
         hw = spi_send_byte 0x21 hw;
         hw = spi_send_byte 0xc8 hw;
         hw = spi_send_byte 0x06 hw;
         hw = spi_send_byte 0x12 hw;
         hw = spi_send_byte 0x20 hw;
         hw = spi_send_byte 0x08 hw
     in spi_send_byte 0x0c hw)"

text \<open>A device as \<open>usbFunctionSetup\<close> and \<open>usbFunctionWrite\<close> may find it, for examples.\<close>

definition ready_device :: device where
  "ready_device = \<lparr>state = ST_READY, recv_len = 0, recv_cnt = 0, usbMsgPtr = banner, calls = [Init]\<rparr>"

definition request :: "u8 \<Rightarrow> u16 \<Rightarrow> u16 \<Rightarrow> u16 \<Rightarrow> usbRequest_t" where
  "request cmd v i l = \<lparr>bmRequestType = 0x40, bRequest = cmd, wValue = v, wIndex = i, wLength = l\<rparr>"

definition hello_rq :: usbRequest_t where
  "hello_rq = request CMD_HELLO HELLO_VALUE HELLO_INDEX 16"

definition over_delivery :: device where
  "over_delivery = ready_device\<lparr>recv_len := 2\<rparr>"

definition blank_gfx :: "nat \<Rightarrow> u8" where
  "blank_gfx k = 0"

section \<open>Helper facts\<close>

lemma banner_bytes:
  "banner = [0x52, 0x55, 0x44, 0x59, 0x20, 0x75, 0x73, 0x62, 0x78, 0x62, 0x6d, 0x20, 0x31, 0x2e, 0x30, 0]"
  by (simp add: banner_def VERSION_def)

lemma sizeof_banner_16: "sizeof_banner = 16"
  by (simp add: sizeof_banner_def banner_bytes)

lemma banner_text: "banner = map of_char ''RUDY usbxbm 1.0'' @ [0]"
  by (simp add: banner_def VERSION_def)

subsection \<open>The receive loop and the data stage\<close>

lemma unat_inc: "i < (m::'a::len word) \<Longrightarrow> unat (i + 1) = Suc (unat i)"
  by unat_arith

lemma write_loop_effect:
  "unat i \<le> unat len \<Longrightarrow>
   write_loop data len i s =
     s\<lparr>recv_cnt := recv_cnt s + of_nat (min (unat len - unat i) (remaining s)),
       calls := calls s @ map (\<lambda>j. SendByte (data ! j))
                  [unat i ..< unat i + min (unat len - unat i) (remaining s)]\<rparr>"
proof (induction data len i s rule: write_loop.induct)
  case (1 data len i s)
  show ?case
  proof (cases "recv_cnt s < recv_len s \<and> i < len")
    case True
    then have c: "recv_cnt s < recv_len s" and l: "i < len" by simp_all
    let ?s' = "(display_call (SendByte (data ! unat i)) s)\<lparr>recv_cnt := recv_cnt s + 1\<rparr>"
    have ui: "unat (i + 1) = Suc (unat i)" using l by (rule unat_inc)
    have uc: "unat (recv_cnt s + 1) = Suc (unat (recv_cnt s))" using c by (rule unat_inc)
    have il: "unat i < unat len" using l by (simp add: word_less_nat_alt)
    have cl: "unat (recv_cnt s) < unat (recv_len s)" using c by (simp add: word_less_nat_alt)
    have rem': "remaining ?s' = remaining s - 1"
      by (simp add: remaining_def display_call_def uc)
    have rpos: "0 < remaining s" using cl by (simp add: remaining_def)
    define k where "k = min (unat len - unat (i + 1)) (remaining ?s')"
    have kk: "min (unat len - unat i) (remaining s) = Suc k"
      using il rpos unfolding k_def ui rem' by arith
    have IH: "write_loop data len (i + 1) ?s' =
        ?s'\<lparr>recv_cnt := recv_cnt ?s' + of_nat k,
             calls := calls ?s' @ map (\<lambda>j. SendByte (data ! j)) [unat (i + 1) ..< unat (i + 1) + k]\<rparr>"
      unfolding k_def using "1.IH" [OF True] ui il by simp
    have "write_loop data len i s = write_loop data len (i + 1) ?s'"
      using True by (subst write_loop.simps) simp
    also note IH
    finally show ?thesis
      by (simp add: kk ui display_call_def upt_rec [of "unat i"] add.assoc)
  next
    case False
    then have "min (unat len - unat i) (remaining s) = 0"
      using "1.prems" by (auto simp: remaining_def word_less_nat_alt min_def)
    moreover have "write_loop data len i s = s"
      using False by (subst write_loop.simps) auto
    ultimately show ?thesis by simp
  qed
qed

lemma map_nth_take: "k \<le> length xs \<Longrightarrow> map (\<lambda>j. f (xs ! j)) [0..<k] = map f (take k xs)"
  by (simp add: list_eq_iff_nth_eq)

lemma usbFunctionWrite_effect:
  assumes "length data = unat len"
  shows "usbFunctionWrite data len s =
    (let k = min (length data) (remaining s);
         s1 = s\<lparr>recv_cnt := recv_cnt s + of_nat k,
                  calls := calls s @ map SendByte (take k data)\<rparr>
     in if recv_cnt s1 = recv_len s1 then (1, display_call FrameDone s1) else (0, s1))"
  using assms
  by (simp add: usbFunctionWrite_def write_loop_effect Let_def map_nth_take display_call_def)

lemma unat_cnt_add:
  "n \<le> remaining s \<Longrightarrow> unat (recv_cnt s + of_nat n) = unat (recv_cnt s) + n"
proof -
  assume a: "n \<le> remaining s"
  have "unat (recv_len s) < 2 ^ 16" and "unat (recv_cnt s) < 2 ^ 16"
    using unsigned_less [of "recv_len s", where 'a = nat]
      unsigned_less [of "recv_cnt s", where 'a = nat] by simp_all
  with a have "unat (recv_cnt s) + n < 2 ^ LENGTH(16)"
    unfolding remaining_def by simp
  then show ?thesis
    by (simp add: unat_word_ariths unat_of_nat)
qed

lemma frag_len: "length f \<le> 255 \<Longrightarrow> unat (of_nat (length f) :: u8) = length f"
  by (simp add: unat_of_nat)

lemma write_incomplete:
  assumes "length f \<le> 255" and "length f < remaining s"
  shows "usbFunctionWrite f (of_nat (length f)) s =
    (0, s\<lparr>recv_cnt := recv_cnt s + of_nat (length f), calls := calls s @ map SendByte f\<rparr>)"
proof -
  have u: "unat (recv_cnt s + of_nat (length f)) = unat (recv_cnt s) + length f"
    using assms(2) by (simp add: unat_cnt_add)
  have "unat (recv_cnt s + of_nat (length f)) \<noteq> unat (recv_len s)"
    using assms(2) unfolding u remaining_def by arith
  then have ne: "recv_cnt s + of_nat (length f) \<noteq> recv_len s"
    by auto
  show ?thesis
    using assms ne by (simp add: usbFunctionWrite_effect frag_len Let_def min_def)
qed

lemma write_completes:
  assumes "length f \<le> 255" and "length f = remaining s" and "recv_cnt s \<le> recv_len s"
  shows "usbFunctionWrite f (of_nat (length f)) s =
    (1, s\<lparr>recv_cnt := recv_len s, calls := calls s @ map SendByte f @ [FrameDone]\<rparr>)"
proof -
  have u: "unat (recv_cnt s + of_nat (length f)) = unat (recv_cnt s) + length f"
    using assms(2) by (simp add: unat_cnt_add)
  have "unat (recv_cnt s) \<le> unat (recv_len s)"
    using assms(3) by (simp add: word_le_nat_alt)
  then have "unat (recv_cnt s + of_nat (length f)) = unat (recv_len s)"
    using assms(2) unfolding u remaining_def by arith
  then have e: "recv_cnt s + of_nat (length f) = recv_len s"
    by (simp add: word_unat_eq_iff)
  have m: "min (length f) (remaining s) = length f"
    using assms(2) by simp
  have "usbFunctionWrite f (of_nat (length f)) s =
    (let k = min (length f) (remaining s);
         s1 = s\<lparr>recv_cnt := recv_cnt s + of_nat k,
                  calls := calls s @ map SendByte (take k f)\<rparr>
     in if recv_cnt s1 = recv_len s1 then (1, display_call FrameDone s1) else (0, s1))"
    by (rule usbFunctionWrite_effect) (simp add: frag_len assms(1))
  then show ?thesis
    unfolding Let_def m using e by (simp add: display_call_def)
qed

lemma deliver_Nil: "deliver s [] = s"
  by (simp add: deliver_def)

lemma deliver_Cons:
  "deliver s (f # fs) = deliver (snd (usbFunctionWrite f (of_nat (length f)) s)) fs"
  by (simp add: deliver_def)

lemma deliver_append: "deliver s (fs @ gs) = deliver (deliver s fs) gs"
  by (simp add: deliver_def)

lemma deliver_incomplete:
  "list_all (\<lambda>f. length f \<le> 255) frags \<Longrightarrow> length (concat frags) < remaining s \<Longrightarrow>
   deliver s frags =
     s\<lparr>recv_cnt := recv_cnt s + of_nat (length (concat frags)),
       calls := calls s @ map SendByte (concat frags)\<rparr>"
proof (induction frags arbitrary: s)
  case Nil
  then show ?case by (simp add: deliver_Nil)
next
  case (Cons f fs)
  let ?s1 = "s\<lparr>recv_cnt := recv_cnt s + of_nat (length f), calls := calls s @ map SendByte f\<rparr>"
  from Cons.prems have f: "length f \<le> 255" and lt: "length f < remaining s"
    by simp_all
  have step: "usbFunctionWrite f (of_nat (length f)) s = (0, ?s1)"
    using f lt by (rule write_incomplete)
  have "remaining ?s1 = remaining s - length f"
    using lt by (simp add: remaining_def unat_cnt_add)
  with Cons.prems have "length (concat fs) < remaining ?s1"
    by simp
  with Cons.prems Cons.IH [of ?s1] show ?case
    by (simp add: deliver_Cons step add.assoc)
qed

lemma deliver_when_complete:
  "recv_cnt s = recv_len s \<Longrightarrow>
   deliver s frags = s\<lparr>calls := calls s @ replicate (length frags) FrameDone\<rparr>"
proof (induction frags arbitrary: s)
  case Nil
  then show ?case by (simp add: deliver_Nil)
next
  case (Cons f fs)
  have w: "write_loop f (of_nat (length f)) 0 s = s"
    using Cons.prems by (subst write_loop.simps) simp
  have step: "snd (usbFunctionWrite f (of_nat (length f)) s) = s\<lparr>calls := calls s @ [FrameDone]\<rparr>"
    using Cons.prems by (simp add: usbFunctionWrite_def w display_call_def)
  have "recv_cnt (s\<lparr>calls := calls s @ [FrameDone]\<rparr>) = recv_len (s\<lparr>calls := calls s @ [FrameDone]\<rparr>)"
    using Cons.prems by simp
  from Cons.IH [OF this] show ?case
    by (simp add: deliver_Cons step replicate_app_Cons_same)
qed

lemma replicate_10: "replicate 10 x = [x, x, x, x, x, x, x, x, x, x]"
  by (simp add: eval_nat_numeral)

lemma data_accepted:
  "state s = ST_READY \<Longrightarrow> bRequest rq = CMD_DATA \<Longrightarrow>
   usbFunctionSetup d rq s =
     (USB_NO_MSG, s\<lparr>recv_len := wLength rq, recv_cnt := 0, calls := calls s @ [FrameStart]\<rparr>)"
  by (simp add: usbFunctionSetup_def display_call_def CMD_DATA_def CMD_HELLO_def CMD_PROPS_def)

lemma deliver_exact:
  assumes small: "\<forall>f\<in>set frags. 1 \<le> length f \<and> length f \<le> 255"
    and total: "length (concat frags) = remaining s"
    and pos: "0 < remaining s"
  shows "deliver s frags =
    s\<lparr>recv_cnt := recv_len s, calls := calls s @ map SendByte (concat frags) @ [FrameDone]\<rparr>"
proof -
  from total pos have "frags \<noteq> []" by auto
  then obtain fs f where frags: "frags = fs @ [f]"
    by (meson rev_exhaust)
  from small frags have f1: "1 \<le> length f" and f255: "length f \<le> 255"
    and fs255: "list_all (\<lambda>f. length f \<le> 255) fs"
    by (auto simp: list_all_iff)
  from total frags have sum: "length (concat fs) + length f = remaining s"
    by simp
  with f1 have lt: "length (concat fs) < remaining s"
    by arith
  let ?s1 = "s\<lparr>recv_cnt := recv_cnt s + of_nat (length (concat fs)),
                calls := calls s @ map SendByte (concat fs)\<rparr>"
  have d1: "deliver s fs = ?s1"
    using fs255 lt by (rule deliver_incomplete)
  have u: "unat (recv_cnt ?s1) = unat (recv_cnt s) + length (concat fs)"
    using lt by (simp add: unat_cnt_add)
  have r1: "length f = remaining ?s1"
    using sum unfolding remaining_def u by simp
  have le1: "recv_cnt ?s1 \<le> recv_len ?s1"
    using lt unfolding word_le_nat_alt u by (simp add: remaining_def)
  have "usbFunctionWrite f (of_nat (length f)) ?s1 =
      (1, ?s1\<lparr>recv_cnt := recv_len ?s1, calls := calls ?s1 @ map SendByte f @ [FrameDone]\<rparr>)"
    using f255 r1 le1 by (rule write_completes)
  then show ?thesis
    by (simp add: frags deliver_append d1 deliver_Cons deliver_Nil)
qed

lemma write_any:
  "usbFunctionWrite data len s =
    (let k = min (unat len) (remaining s);
         s1 = s\<lparr>recv_cnt := recv_cnt s + of_nat k,
                  calls := calls s @ map (\<lambda>j. SendByte (data ! j)) [0..<k]\<rparr>
     in if recv_cnt s1 = recv_len s1 then (1, display_call FrameDone s1) else (0, s1))"
  by (simp add: usbFunctionWrite_def write_loop_effect Let_def display_call_def)

lemma write_keeps_order:
  assumes "recv_cnt s \<le> recv_len s"
  shows "recv_cnt (snd (usbFunctionWrite data len s)) \<le> recv_len (snd (usbFunctionWrite data len s))"
proof -
  define k where "k = min (unat len) (remaining s)"
  have "k \<le> remaining s" by (simp add: k_def)
  then have u: "unat (recv_cnt s + of_nat k) = unat (recv_cnt s) + k"
    by (rule unat_cnt_add)
  have "unat (recv_cnt s) \<le> unat (recv_len s)"
    using assms by (simp add: word_le_nat_alt)
  with \<open>k \<le> remaining s\<close> have "unat (recv_cnt s + of_nat k) \<le> unat (recv_len s)"
    unfolding u remaining_def by arith
  then have "recv_cnt s + of_nat k \<le> recv_len s"
    by (simp add: word_le_nat_alt)
  then show ?thesis
    by (simp add: write_any Let_def k_def display_call_def)
qed

lemma setup_keeps_order:
  assumes "recv_cnt s \<le> recv_len s"
  shows "recv_cnt (snd (usbFunctionSetup d rq s)) \<le> recv_len (snd (usbFunctionSetup d rq s))"
  using assms by (simp add: usbFunctionSetup_def display_call_def Let_def)

lemma usbPoll_keeps_order:
  "recv_cnt s \<le> recv_len s \<Longrightarrow> recv_cnt (usbPoll d s e) \<le> recv_len (usbPoll d s e)"
  by (cases e) (simp_all add: setup_keeps_order write_keeps_order)

lemma foldl_keeps_order:
  "recv_cnt s \<le> recv_len s \<Longrightarrow>
   recv_cnt (foldl (usbPoll d) s evs) \<le> recv_len (foldl (usbPoll d) s evs)"
  by (induction evs arbitrary: s) (simp_all add: usbPoll_keeps_order)

lemma main_keeps_order: "recv_cnt (main d evs) \<le> recv_len (main d evs)"
  unfolding main_def
  by (rule foldl_keeps_order) (simp add: display_call_def power_up_def)

subsection \<open>The session state along a run\<close>

lemma after_last_hello_snoc:
  "after_last_hello (es @ [e]) =
     (if valid_hello e then Some [] else map_option (\<lambda>r. r @ [e]) (after_last_hello es))"
  by (induction es) (auto split: option.splits)

lemma session_open_Nil: "\<not> session_open []"
  by (simp add: session_open_def)

lemma session_open_snoc:
  "session_open (es @ [e]) = (valid_hello e \<or> (\<not> is_bye e \<and> session_open es))"
  by (auto simp: session_open_def after_last_hello_snoc split: option.splits)

lemma hello_not_bye: "valid_hello e \<Longrightarrow> \<not> is_bye e"
  by (cases e) (auto simp: CMD_HELLO_def CMD_BYE_def)

lemma state_usbPoll:
  "state (usbPoll d s e) =
     (if valid_hello e then ST_READY else if is_bye e then ST_IDLE else state s)"
proof (cases e)
  case (Setup rq)
  then show ?thesis
    by (simp add: usbFunctionSetup_def display_call_def Let_def CMD_HELLO_def CMD_BYE_def
        CMD_PROPS_def CMD_DATA_def CMD_RESET_def)
next
  case (Write data len)
  then show ?thesis
    by (simp add: write_any Let_def display_call_def)
qed

lemma main_snoc: "main d (es @ [e]) = usbPoll d (main d es) e"
  by (simp add: main_def)

lemma state_main: "state (main d evs) = (if session_open evs then ST_READY else ST_IDLE)"
proof (induction evs rule: rev_induct)
  case Nil
  then show ?case
    by (simp add: main_def session_open_Nil display_call_def power_up_def)
next
  case (snoc e es)
  then show ?case
    by (simp add: main_snoc state_usbPoll session_open_snoc hello_not_bye)
qed

lemma session_closed_after_bye:
  "is_bye e \<Longrightarrow> filter valid_hello post = [] \<Longrightarrow> \<not> session_open (pre @ e # post)"
proof (induction post rule: rev_induct)
  case Nil
  then show ?case
    using session_open_snoc [of pre e] hello_not_bye [of e] by auto
next
  case (snoc x xs)
  then have "\<not> session_open (pre @ e # xs)" and "\<not> valid_hello x"
    by (simp_all split: if_splits)
  then show ?case
    using session_open_snoc [of "pre @ e # xs" x] by simp
qed

subsection \<open>The Nokia 5110 backend\<close>

lemma splash_loop_foldl:
  "unat i \<le> X_RES * (Y_RES div 8) \<Longrightarrow>
   splash_loop gfx i hw =
     foldl (\<lambda>h b. spi_send_byte b h) hw (map gfx [unat i ..< X_RES * (Y_RES div 8)])"
proof (induction gfx i hw rule: splash_loop.induct)
  case (1 gfx i hw)
  show ?case
  proof (cases "unat i < X_RES * (Y_RES div 8)")
    case True
    then have "i < (504 :: u16)"
      by (simp add: X_RES_def Y_RES_def word_less_nat_alt)
    then have ui: "unat (i + 1) = Suc (unat i)"
      by (rule unat_inc)
    have "splash_loop gfx i hw = splash_loop gfx (i + 1) (spi_send_byte (gfx (unat i)) hw)"
      using True by (subst splash_loop.simps) simp
    also have "\<dots> = foldl (\<lambda>h b. spi_send_byte b h) (spi_send_byte (gfx (unat i)) hw)
        (map gfx [unat (i + 1) ..< X_RES * (Y_RES div 8)])"
      using "1.IH" [OF True] True ui by simp
    finally show ?thesis
      using True by (simp add: ui upt_rec [of "unat i"])
  next
    case False
    then have "splash_loop gfx i hw = hw"
      by (subst splash_loop.simps) simp
    with False show ?thesis by simp
  qed
qed

lemma run_calls_send:
  "run_calls d (map (\<lambda>k. SendByte (g k)) ns) hw = foldl (\<lambda>h b. send_byte d b h) hw (map g ns)"
  unfolding run_calls_def by (induction ns arbitrary: hw) simp_all

lemma run_calls_append: "run_calls d (cs @ cs') hw = run_calls d cs' (run_calls d cs hw)"
  by (simp add: run_calls_def)

lemma PORTB_spi_send_byte: "PORTB (spi_send_byte b hw) = PORTB hw"
  by (simp add: spi_send_byte_def)

lemma PORTB_init_config:
  "PORTB (nokia5110_init_config hw) =
     (PORTB (nokia5110_init_config hw) AND NOT (push_bit SPI_CS_PIN 1)) AND NOT (push_bit SPI_DC_PIN 1)"
  by (simp add: nokia5110_init_config_def Let_def PORTB_spi_send_byte spi_dc_low_def
      spi_cs_low_def and.assoc and.left_commute and.commute)

lemma frame_start_after_config:
  "nokia5110_frame_start (nokia5110_init_config hw) =
     lcd_data_mode (spi_send_byte 0x40 (spi_send_byte 0x80 (nokia5110_init_config hw)))"
proof -
  have "lcd_command_mode (lcd_spi_enable (nokia5110_init_config hw)) = nokia5110_init_config hw"
    using PORTB_init_config [of hw] by (simp add: spi_dc_low_def spi_cs_low_def)
  then show ?thesis
    by (simp add: nokia5110_frame_start_def Let_def)
qed

lemma nokia5110_init_split:
  "nokia5110_init gfx hw =
     lcd_spi_disable (splash_loop gfx 0
       (lcd_data_mode (spi_send_byte 0x40 (spi_send_byte 0x80 (nokia5110_init_config hw)))))"
  by (simp add: nokia5110_init_def nokia5110_init_config_def Let_def)

lemma init_is_config_then_frame:
  "run_calls (display gfx) [Init] hw =
   run_calls (display gfx)
     ([FrameStart] @ map (\<lambda>k. SendByte (gfx k)) [0 ..< X_RES * (Y_RES div 8)] @ [FrameDone])
     (nokia5110_init_config hw)"
proof -
  have "run_calls (display gfx) [Init] hw = nokia5110_init gfx hw"
    by (simp add: run_calls_def display_def)
  also have "\<dots> = nokia5110_frame_done
      (foldl (\<lambda>h b. spi_send_byte b h) (nokia5110_frame_start (nokia5110_init_config hw))
        (map gfx [0 ..< X_RES * (Y_RES div 8)]))"
    by (simp add: nokia5110_init_split splash_loop_foldl frame_start_after_config
        nokia5110_frame_done_def)
  also have "\<dots> = run_calls (display gfx)
     ([FrameStart] @ map (\<lambda>k. SendByte (gfx k)) [0 ..< X_RES * (Y_RES div 8)] @ [FrameDone])
     (nokia5110_init_config hw)"
    unfolding run_calls_append run_calls_send
    by (simp add: run_calls_def display_def)
  finally show ?thesis .
qed

section \<open>The session commands\<close>

text \<open>
  C1. Whatever setup requests and data chunks the device has handled since power-up,
  a QueryProperties request is answered with the properties record exactly when the
  most recent Hello with matching magic values has not been followed by a Bye.
  Otherwise QueryProperties and Data return 0 and change nothing. In particular a Bye
  closes the session for as long as no matching Hello follows it.
\<close>

theorem properties_answered_iff_session_open:
  "(bRequest rq = CMD_PROPS \<longrightarrow>
      (fst (usbFunctionSetup d rq (main d evs)) = sizeof_properties) = session_open evs \<and>
      (session_open evs \<longrightarrow>
         usbFunctionSetup d rq (main d evs) =
           (sizeof_properties, (main d evs)\<lparr>usbMsgPtr := properties_bytes (properties d)\<rparr>))) \<and>
   (\<not> session_open evs \<and> (bRequest rq = CMD_PROPS \<or> bRequest rq = CMD_DATA) \<longrightarrow>
      usbFunctionSetup d rq (main d evs) = (0, main d evs)) \<and>
   (is_bye e \<and> filter valid_hello post = [] \<longrightarrow> \<not> session_open (pre @ e # post))"
proof -
  have ne: "ST_IDLE \<noteq> ST_READY"
    by (simp add: ST_IDLE_def ST_READY_def)
  have sz: "sizeof_properties \<noteq> 0"
    by (simp add: sizeof_properties_def)
  have st: "(state (main d evs) = ST_READY) = session_open evs"
    using ne by (simp add: state_main)
  have p: "usbFunctionSetup d rq (main d evs) =
      (if session_open evs
       then (sizeof_properties, (main d evs)\<lparr>usbMsgPtr := properties_bytes (properties d)\<rparr>)
       else (0, main d evs))" if "bRequest rq = CMD_PROPS"
    using that st by (simp add: usbFunctionSetup_def CMD_PROPS_def CMD_HELLO_def)
  have dt: "usbFunctionSetup d rq (main d evs) = (0, main d evs)"
    if "bRequest rq = CMD_DATA" and "\<not> session_open evs"
    using that st by (simp add: usbFunctionSetup_def CMD_PROPS_def CMD_HELLO_def CMD_DATA_def)
  show ?thesis
    using p dt sz session_closed_after_bye [of e post pre] by auto
qed

theorem properties_answered_witness:
  "bRequest (request CMD_PROPS 0 0 25) = CMD_PROPS \<and>
   session_open [Setup hello_rq] \<and>
   fst (usbFunctionSetup (display blank_gfx) (request CMD_PROPS 0 0 25)
     (main (display blank_gfx) [Setup hello_rq])) = sizeof_properties \<and>
   \<not> session_open [Setup hello_rq, Setup (request CMD_BYE 0 0 0)] \<and>
   usbFunctionSetup (display blank_gfx) (request CMD_PROPS 0 0 25)
     (main (display blank_gfx) [Setup hello_rq, Setup (request CMD_BYE 0 0 0)]) =
     (0, main (display blank_gfx) [Setup hello_rq, Setup (request CMD_BYE 0 0 0)]) \<and>
   is_bye (Setup (request CMD_BYE 0 0 0)) \<and>
   filter valid_hello [Write [1] 1] = [] \<and>
   \<not> session_open ([Setup hello_rq] @ Setup (request CMD_BYE 0 0 0) # [Write [1] 1])"
proof -
  have h1: "bRequest (request CMD_PROPS 0 0 25) = CMD_PROPS"
    by (simp add: request_def)
  have h2: "session_open [Setup hello_rq]"
    by (simp add: session_open_def hello_rq_def request_def)
  have h3: "\<not> session_open [Setup hello_rq, Setup (request CMD_BYE 0 0 0)]"
    by (simp add: session_open_def hello_rq_def request_def CMD_BYE_def CMD_HELLO_def)
  have h4: "is_bye (Setup (request CMD_BYE 0 0 0))"
    by (simp add: request_def)
  have h5: "filter valid_hello [Write [1] 1] = []"
    by simp
  show ?thesis
    using h1 h2 h3 h4 h5
      properties_answered_iff_session_open [of "request CMD_PROPS 0 0 25" "display blank_gfx"
        "[Setup hello_rq]" "Setup (request CMD_BYE 0 0 0)" "[Write [1] 1]" "[Setup hello_rq]"]
      properties_answered_iff_session_open [of "request CMD_PROPS 0 0 25" "display blank_gfx"
        "[Setup hello_rq, Setup (request CMD_BYE 0 0 0)]" "Setup (request CMD_BYE 0 0 0)"
        "[Write [1] 1]" "[Setup hello_rq]"]
    by blast
qed

text \<open>
  C3. A Hello request is accepted exactly when \<open>wValue\<close> is 0x4d6f and \<open>wIndex\<close> is
  0x6921: then the device is in \<open>ST_READY\<close> afterwards and the reply is the 16 bytes of
  the banner, the text "RUDY usbxbm 1.0" and its terminating zero. With any other pair
  nothing changes and the reply is empty (the callback returns 0).
\<close>

theorem hello_accepted_iff_magic:
  assumes "bRequest rq = CMD_HELLO"
  shows "(wValue rq = 0x4d6f \<and> wIndex rq = 0x6921 \<longrightarrow>
            usbFunctionSetup d rq s =
              (16, s\<lparr>state := ST_READY,
                      usbMsgPtr := map of_char ''RUDY usbxbm 1.0'' @ [0],
                      calls := (if state s = ST_IDLE then calls s else calls s @ [Init])\<rparr>)) \<and>
         (\<not> (wValue rq = 0x4d6f \<and> wIndex rq = 0x6921) \<longrightarrow>
            usbFunctionSetup d rq s = (0, s)) \<and>
         ((state (snd (usbFunctionSetup d rq s)) = ST_READY \<and>
           fst (usbFunctionSetup d rq s) = sizeof_banner \<and>
           usbMsgPtr (snd (usbFunctionSetup d rq s)) = banner)
          = (wValue rq = 0x4d6f \<and> wIndex rq = 0x6921)) \<and>
         length banner = 16"
  using assms
  by (auto simp: usbFunctionSetup_def display_call_def HELLO_VALUE_def HELLO_INDEX_def
      sizeof_banner_16 banner_text [symmetric] Let_def banner_bytes)

theorem hello_witness:
  "bRequest (request CMD_HELLO 0x4d6f 0x6921 16) = CMD_HELLO \<and>
   usbFunctionSetup (display blank_gfx) (request CMD_HELLO 0x4d6f 0x6921 16) power_up
     = (16, power_up\<lparr>state := ST_READY, usbMsgPtr := banner\<rparr>) \<and>
   usbFunctionSetup (display blank_gfx) (request CMD_HELLO 0x4d6f 0x6920 16) ready_device
     = (0, ready_device)"
proof -
  have h: "bRequest (request CMD_HELLO v i 16) = CMD_HELLO" for v i
    by (simp add: request_def)
  show ?thesis
    using h hello_accepted_iff_magic [OF h, of "0x4d6f" "0x6921" "display blank_gfx" power_up]
      hello_accepted_iff_magic [OF h, of "0x4d6f" "0x6920" "display blank_gfx" ready_device]
    by (simp add: request_def power_up_def banner_text)
qed

text \<open>
  C6. A Hello with matching magic values received in a state other than \<open>ST_IDLE\<close>
  calls \<open>display.init()\<close> before the state is set and the banner returned; received in
  \<open>ST_IDLE\<close> it makes no call to the display. On the Nokia 5110, what the init call
  does to the panel is what its configuration part followed by \<open>frame_start\<close>, one
  \<open>send_byte\<close> for each of the 504 bytes of a full frame (the splash image) and
  \<open>frame_done\<close> do.
\<close>

theorem hello_in_ready_reinitialises_display:
  assumes "bRequest rq = CMD_HELLO" and "wValue rq = HELLO_VALUE" and "wIndex rq = HELLO_INDEX"
  shows "(state s \<noteq> ST_IDLE \<longrightarrow>
            usbFunctionSetup d rq s =
              (sizeof_banner,
               s\<lparr>state := ST_READY, usbMsgPtr := banner, calls := calls s @ [Init]\<rparr>)) \<and>
         (state s = ST_IDLE \<longrightarrow>
            usbFunctionSetup d rq s =
              (sizeof_banner, s\<lparr>state := ST_READY, usbMsgPtr := banner\<rparr>)) \<and>
         run_calls (display gfx) [Init] hw =
           run_calls (display gfx)
             ([FrameStart] @ map (\<lambda>k. SendByte (gfx k)) [0 ..< X_RES * (Y_RES div 8)] @
              [FrameDone])
             (nokia5110_init_config hw) \<and>
         X_RES * (Y_RES div 8) = unat (res_x (properties (display gfx)))
            * unat (res_y (properties (display gfx))) div 8"
  using assms
  by (simp add: usbFunctionSetup_def display_call_def Let_def init_is_config_then_frame)
    (simp add: display_def X_RES_def Y_RES_def)

theorem hello_in_ready_witness:
  "bRequest hello_rq = CMD_HELLO \<and> wValue hello_rq = HELLO_VALUE \<and>
   wIndex hello_rq = HELLO_INDEX \<and> state ready_device \<noteq> ST_IDLE \<and>
   usbFunctionSetup (display blank_gfx) hello_rq ready_device =
     (sizeof_banner, ready_device\<lparr>state := ST_READY, usbMsgPtr := banner,
        calls := calls ready_device @ [Init]\<rparr>) \<and>
   state power_up = ST_IDLE \<and>
   usbFunctionSetup (display blank_gfx) hello_rq power_up =
     (sizeof_banner, power_up\<lparr>state := ST_READY, usbMsgPtr := banner\<rparr>)"
proof -
  have h1: "bRequest hello_rq = CMD_HELLO" and h2: "wValue hello_rq = HELLO_VALUE"
    and h3: "wIndex hello_rq = HELLO_INDEX"
    by (simp_all add: hello_rq_def request_def)
  have h4: "state ready_device \<noteq> ST_IDLE"
    by (simp add: ready_device_def ST_READY_def ST_IDLE_def)
  have h5: "state power_up = ST_IDLE"
    by (simp add: power_up_def)
  show ?thesis
    using h1 h2 h3 h4 h5
      hello_in_ready_reinitialises_display [OF h1 h2 h3, of ready_device "display blank_gfx"]
      hello_in_ready_reinitialises_display [OF h1 h2 h3, of power_up "display blank_gfx"]
    by blast
qed

text \<open>
  C7. In \<open>ST_READY\<close> a QueryProperties request returns 25, the size of the properties
  struct, and points the reply at its bytes: width and height as 16-bit values, the
  colour depth as one byte, the 20 bytes of the name. For the Nokia 5110 build the
  record is 84, 48, 1 and "Nokia 5110" padded with zero bytes.
\<close>

theorem query_properties_record:
  assumes "state s = ST_READY" and "bRequest rq = CMD_PROPS"
  shows "usbFunctionSetup d rq s =
           (25, s\<lparr>usbMsgPtr := le16 (res_x (properties d)) @ le16 (res_y (properties d)) @
                                 [color_bits (properties d)] @ identifier (properties d)\<rparr>) \<and>
         properties (display gfx) =
           \<lparr>res_x = 84, res_y = 48, color_bits = 1,
            identifier = map of_char ''Nokia 5110'' @ replicate 10 0\<rparr> \<and>
         usbFunctionSetup (display gfx) rq s =
           (25, s\<lparr>usbMsgPtr := [84, 0, 48, 0, 1,
                    0x4e, 0x6f, 0x6b, 0x69, 0x61, 0x20, 0x35, 0x31, 0x31, 0x30,
                    0, 0, 0, 0, 0, 0, 0, 0, 0, 0]\<rparr>)"
  using assms
  by (simp add: usbFunctionSetup_def CMD_PROPS_def CMD_HELLO_def sizeof_properties_def
      properties_bytes_def display_def X_RES_def Y_RES_def c_string_def le16_def replicate_10)

theorem query_properties_witness:
  "state ready_device = ST_READY \<and> bRequest (request CMD_PROPS 0 0 25) = CMD_PROPS \<and>
   usbFunctionSetup (display blank_gfx) (request CMD_PROPS 0 0 25) ready_device =
     (25, ready_device\<lparr>usbMsgPtr := [84, 0, 48, 0, 1,
            0x4e, 0x6f, 0x6b, 0x69, 0x61, 0x20, 0x35, 0x31, 0x31, 0x30,
            0, 0, 0, 0, 0, 0, 0, 0, 0, 0]\<rparr>)"
proof -
  have h1: "state ready_device = ST_READY"
    by (simp add: ready_device_def)
  have h2: "bRequest (request CMD_PROPS 0 0 25) = CMD_PROPS"
    by (simp add: request_def)
  show ?thesis
    using h1 h2 query_properties_record [OF h1 h2, of "display blank_gfx" blank_gfx]
    by blast
qed

text \<open>
  C9. A Reset request in \<open>ST_READY\<close> calls \<open>display.init()\<close> and changes nothing else:
  the state stays \<open>ST_READY\<close>, \<open>recv_len\<close> and \<open>recv_cnt\<close> keep their values. In any
  other state it does nothing. Either way the callback returns 0.
\<close>

theorem reset_reinitialises_in_ready_only:
  assumes "bRequest rq = CMD_RESET"
  shows "usbFunctionSetup d rq s =
    (0, if state s = ST_READY then s\<lparr>calls := calls s @ [Init]\<rparr> else s)"
  using assms
  by (simp add: usbFunctionSetup_def display_call_def CMD_RESET_def CMD_HELLO_def
      CMD_PROPS_def CMD_DATA_def)

theorem reset_witness:
  "bRequest (request CMD_RESET 0 0 0) = CMD_RESET \<and>
   usbFunctionSetup (display blank_gfx) (request CMD_RESET 0 0 0) ready_device
     = (0, ready_device\<lparr>calls := [Init, Init]\<rparr>) \<and>
   usbFunctionSetup (display blank_gfx) (request CMD_RESET 0 0 0) power_up = (0, power_up)"
proof -
  have h: "bRequest (request CMD_RESET 0 0 0) = CMD_RESET"
    by (simp add: request_def)
  show ?thesis
    using h reset_reinitialises_in_ready_only [OF h, of "display blank_gfx" ready_device]
      reset_reinitialises_in_ready_only [OF h, of "display blank_gfx" power_up]
    by (simp add: ready_device_def power_up_def ST_READY_def ST_IDLE_def)
qed

section \<open>The frame receiver\<close>

text \<open>
  C2, for transfers of at least one byte. After a Data request of length at least 1
  accepted in \<open>ST_READY\<close>, when exactly that many bytes arrive in chunks of 1 to 255
  bytes each, the display sees \<open>frame_start\<close>, then one \<open>send_byte\<close> per byte in the
  order of arrival, then \<open>frame_done\<close> once, after the last byte. As long as fewer
  bytes than announced have arrived, \<open>frame_done\<close> has not been called.
\<close>

theorem data_transfer_calls:
  assumes "state s = ST_READY" and "bRequest rq = CMD_DATA"
    and "\<forall>f\<in>set frags. length f \<le> 255"
  shows "(0 < unat (wLength rq) \<and> (\<forall>f\<in>set frags. 1 \<le> length f) \<and>
          length (concat frags) = unat (wLength rq) \<longrightarrow>
            calls (deliver (snd (usbFunctionSetup d rq s)) frags) =
              calls s @ [FrameStart] @ map SendByte (concat frags) @ [FrameDone]) \<and>
         (length (concat frags) < unat (wLength rq) \<longrightarrow>
            calls (deliver (snd (usbFunctionSetup d rq s)) frags) =
              calls s @ [FrameStart] @ map SendByte (concat frags))"
proof -
  let ?s' = "s\<lparr>recv_len := wLength rq, recv_cnt := 0, calls := calls s @ [FrameStart]\<rparr>"
  have st: "snd (usbFunctionSetup d rq s) = ?s'"
    using assms(1,2) by (simp add: data_accepted)
  have rem: "remaining ?s' = unat (wLength rq)"
    by (simp add: remaining_def)
  have full: "calls (deliver ?s' frags) =
      calls s @ [FrameStart] @ map SendByte (concat frags) @ [FrameDone]"
    if "0 < unat (wLength rq)" and "\<forall>f\<in>set frags. 1 \<le> length f"
      and "length (concat frags) = unat (wLength rq)"
  proof -
    have "\<forall>f\<in>set frags. 1 \<le> length f \<and> length f \<le> 255"
      using that(2) assms(3) by blast
    moreover have "length (concat frags) = remaining ?s'"
      using that(3) rem by simp
    moreover have "0 < remaining ?s'"
      using that(1) rem by simp
    ultimately have "deliver ?s' frags =
        ?s'\<lparr>recv_cnt := recv_len ?s',
            calls := calls ?s' @ map SendByte (concat frags) @ [FrameDone]\<rparr>"
      by (rule deliver_exact)
    then show ?thesis by simp
  qed
  have part: "calls (deliver ?s' frags) = calls s @ [FrameStart] @ map SendByte (concat frags)"
    if "length (concat frags) < unat (wLength rq)"
  proof -
    have "list_all (\<lambda>f. length f \<le> 255) frags"
      using assms(3) by (simp add: list_all_iff)
    moreover have "length (concat frags) < remaining ?s'"
      using that rem by simp
    ultimately have "deliver ?s' frags =
        ?s'\<lparr>recv_cnt := recv_cnt ?s' + of_nat (length (concat frags)),
            calls := calls ?s' @ map SendByte (concat frags)\<rparr>"
      by (rule deliver_incomplete)
    then show ?thesis by simp
  qed
  from full part show ?thesis
    unfolding st by blast
qed

theorem data_transfer_witness:
  "state ready_device = ST_READY \<and> bRequest (request CMD_DATA 0 0 3) = CMD_DATA \<and>
   length [5, 6 :: u8] \<le> 255 \<and> length [7 :: u8] \<le> 255 \<and>
   calls (deliver (snd (usbFunctionSetup (display blank_gfx) (request CMD_DATA 0 0 3)
       ready_device)) [[5, 6], [7]]) =
     [Init, FrameStart, SendByte 5, SendByte 6, SendByte 7, FrameDone] \<and>
   calls (deliver (snd (usbFunctionSetup (display blank_gfx) (request CMD_DATA 0 0 3)
       ready_device)) [[5, 6]]) =
     [Init, FrameStart, SendByte 5, SendByte 6]"
proof -
  have h1: "state ready_device = ST_READY"
    by (simp add: ready_device_def)
  have h2: "bRequest (request CMD_DATA 0 0 3) = CMD_DATA"
    by (simp add: request_def)
  have h3: "\<forall>f\<in>set [[5, 6], [7 :: u8]]. length f \<le> 255"
    by simp
  have h4: "\<forall>f\<in>set [[5, 6 :: u8]]. length f \<le> 255"
    by simp
  have w: "wLength (request CMD_DATA 0 0 3) = 3" and c: "calls ready_device = [Init]"
    by (simp_all add: request_def ready_device_def)
  show ?thesis
    using h1 h2 h3 data_transfer_calls [OF h1 h2 h3, of "display blank_gfx"]
      data_transfer_calls [OF h1 h2 h4, of "display blank_gfx"]
    by (simp add: w c)
qed

text \<open>
  C2 as stated covers length 0 as well. A Data request of length 0 has no chunk of
  one byte or more to follow it, so \<open>usbFunctionWrite\<close> does not run and \<open>frame_done\<close>
  is not called once, but not at all.
\<close>

theorem data_zero_without_fragments_counterexample:
  "state ready_device = ST_READY \<and> bRequest (request CMD_DATA 0 0 0) = CMD_DATA \<and>
   length (concat ([] :: u8 list list)) = unat (wLength (request CMD_DATA 0 0 0)) \<and>
   calls (deliver (snd (usbFunctionSetup (display blank_gfx) (request CMD_DATA 0 0 0)
       ready_device)) []) = [Init, FrameStart] \<and>
   count_list (calls (deliver (snd (usbFunctionSetup (display blank_gfx)
       (request CMD_DATA 0 0 0) ready_device)) [])) FrameDone \<noteq> 1"
  by (simp add: usbFunctionSetup_def display_call_def ready_device_def request_def
      CMD_DATA_def CMD_HELLO_def CMD_PROPS_def deliver_def)

text \<open>
  C4. \<open>recv_cnt \<le> recv_len\<close> holds after every run of the callbacks from power-up.
  One call of \<open>usbFunctionWrite\<close> forwards only as many bytes of its chunk as are still
  expected and counts only those; the bytes beyond are dropped. Once the transfer is
  complete a call forwards and counts nothing, and only a Data request changes
  \<open>recv_len\<close> or resets \<open>recv_cnt\<close>.
\<close>

theorem received_never_exceeds_expected:
  "recv_cnt (main d evs) \<le> recv_len (main d evs) \<and>
   (recv_cnt s \<le> recv_len s \<and> length data = unat len \<longrightarrow>
      recv_len (snd (usbFunctionWrite data len s)) = recv_len s \<and>
      unat (recv_cnt (snd (usbFunctionWrite data len s)))
        = unat (recv_cnt s) + min (length data) (remaining s) \<and>
      recv_cnt (snd (usbFunctionWrite data len s)) \<le> recv_len s \<and>
      calls (snd (usbFunctionWrite data len s))
        = calls s @ map SendByte (take (remaining s) data) @
          (if length data < remaining s then [] else [FrameDone])) \<and>
   (recv_cnt s = recv_len s \<longrightarrow>
      snd (usbFunctionWrite data len s) = s\<lparr>calls := calls s @ [FrameDone]\<rparr>) \<and>
   (bRequest rq \<noteq> CMD_DATA \<longrightarrow>
      recv_cnt (snd (usbFunctionSetup d rq s)) = recv_cnt s \<and>
      recv_len (snd (usbFunctionSetup d rq s)) = recv_len s)"
proof (intro conjI impI)
  show "recv_cnt (main d evs) \<le> recv_len (main d evs)"
    by (rule main_keeps_order)
next
  assume a: "recv_cnt s \<le> recv_len s \<and> length data = unat len"
  define k where "k = min (length data) (remaining s)"
  have kr: "k \<le> remaining s" by (simp add: k_def)
  have u: "unat (recv_cnt s + of_nat k) = unat (recv_cnt s) + k"
    using kr by (rule unat_cnt_add)
  have le: "unat (recv_cnt s) \<le> unat (recv_len s)"
    using a by (simp add: word_le_nat_alt)
  have eq: "(recv_cnt s + of_nat k = recv_len s) = (\<not> length data < remaining s)"
    unfolding word_unat_eq_iff u using le by (simp add: k_def remaining_def) arith
  have w: "usbFunctionWrite data len s =
    (let s1 = s\<lparr>recv_cnt := recv_cnt s + of_nat k,
                  calls := calls s @ map SendByte (take k data)\<rparr>
     in if recv_cnt s1 = recv_len s1 then (1, display_call FrameDone s1) else (0, s1))"
    using a by (simp add: usbFunctionWrite_effect k_def Let_def)
  have rl: "recv_len (snd (usbFunctionWrite data len s)) = recv_len s"
    by (simp add: w Let_def display_call_def)
  then show "recv_len (snd (usbFunctionWrite data len s)) = recv_len s" .
  have rc: "recv_cnt (snd (usbFunctionWrite data len s)) = recv_cnt s + of_nat k"
    by (simp add: w Let_def display_call_def)
  show "unat (recv_cnt (snd (usbFunctionWrite data len s)))
        = unat (recv_cnt s) + min (length data) (remaining s)"
    using u unfolding rc k_def .
  show "recv_cnt (snd (usbFunctionWrite data len s)) \<le> recv_len s"
    using write_keeps_order [of s data len] a unfolding rl by blast
  show "calls (snd (usbFunctionWrite data len s))
        = calls s @ map SendByte (take (remaining s) data) @
          (if length data < remaining s then [] else [FrameDone])"
    by (simp add: w Let_def display_call_def eq) (simp add: k_def min_def)
next
  assume c: "recv_cnt s = recv_len s"
  have "write_loop data len 0 s = s"
    using c by (subst write_loop.simps) simp
  then show "snd (usbFunctionWrite data len s) = s\<lparr>calls := calls s @ [FrameDone]\<rparr>"
    using c by (simp add: usbFunctionWrite_def display_call_def)
next
  assume "bRequest rq \<noteq> CMD_DATA"
  then show "recv_cnt (snd (usbFunctionSetup d rq s)) = recv_cnt s"
    and "recv_len (snd (usbFunctionSetup d rq s)) = recv_len s"
    by (simp_all add: usbFunctionSetup_def display_call_def Let_def)
qed

theorem received_never_exceeds_expected_witness:
  "recv_cnt over_delivery \<le> recv_len over_delivery \<and> length [5, 6, 7 :: u8] = unat (3 :: u8) \<and>
   unat (recv_cnt (snd (usbFunctionWrite [5, 6, 7] 3 over_delivery))) = 2 \<and>
   calls (snd (usbFunctionWrite [5, 6, 7] 3 over_delivery))
     = [Init, SendByte 5, SendByte 6, FrameDone] \<and>
   bRequest (request CMD_BYE 0 0 0) \<noteq> CMD_DATA \<and>
   recv_len (snd (usbFunctionSetup (display blank_gfx) (request CMD_BYE 0 0 0) over_delivery)) = 2"
proof -
  have h1: "recv_cnt over_delivery \<le> recv_len over_delivery"
    by (simp add: over_delivery_def ready_device_def)
  have h2: "length [5, 6, 7 :: u8] = unat (3 :: u8)"
    by simp
  have h3: "bRequest (request CMD_BYE 0 0 0) \<noteq> CMD_DATA"
    by (simp add: request_def CMD_BYE_def CMD_DATA_def)
  have r: "remaining over_delivery = 2" and c: "calls over_delivery = [Init]"
    and l: "recv_len over_delivery = 2" and n: "recv_cnt over_delivery = 0"
    by (simp_all add: remaining_def over_delivery_def ready_device_def)
  show ?thesis
    using h1 h2 h3
      received_never_exceeds_expected [of "display blank_gfx" "[]" over_delivery "[5, 6, 7]" 3
        "request CMD_BYE 0 0 0"]
    by (simp add: r c l n)
qed

text \<open>
  C5, with the call that completes the transfer made explicit. A Data request of
  length 0 accepted in \<open>ST_READY\<close> calls \<open>frame_start\<close>. A call of \<open>usbFunctionWrite\<close>
  made directly after that request, with no other request in between, then sends no
  byte whatever chunk it is given, calls \<open>frame_done\<close> and returns 1.
\<close>

theorem data_zero_needs_a_delivery_call:
  assumes "state s = ST_READY" and "bRequest rq = CMD_DATA" and "wLength rq = 0"
  shows "usbFunctionSetup d rq s =
           (USB_NO_MSG, s\<lparr>recv_len := 0, recv_cnt := 0, calls := calls s @ [FrameStart]\<rparr>) \<and>
         usbFunctionWrite data len (snd (usbFunctionSetup d rq s)) =
           (1, s\<lparr>recv_len := 0, recv_cnt := 0, calls := calls s @ [FrameStart, FrameDone]\<rparr>)"
proof -
  let ?s' = "s\<lparr>recv_len := 0, recv_cnt := 0, calls := calls s @ [FrameStart]\<rparr>"
  have st: "usbFunctionSetup d rq s = (USB_NO_MSG, ?s')"
    using assms
    by (simp add: usbFunctionSetup_def display_call_def CMD_DATA_def CMD_HELLO_def CMD_PROPS_def)
  have "write_loop data len 0 ?s' = ?s'"
    by (subst write_loop.simps) simp
  then have "usbFunctionWrite data len ?s' =
      (1, s\<lparr>recv_len := 0, recv_cnt := 0, calls := calls s @ [FrameStart, FrameDone]\<rparr>)"
    by (simp add: usbFunctionWrite_def display_call_def)
  with st show ?thesis by simp
qed

theorem data_zero_witness:
  "state ready_device = ST_READY \<and> bRequest (request CMD_DATA 0 0 0) = CMD_DATA \<and>
   wLength (request CMD_DATA 0 0 0) = 0 \<and>
   usbFunctionWrite [] 0
     (snd (usbFunctionSetup (display blank_gfx) (request CMD_DATA 0 0 0) ready_device))
     = (1, ready_device\<lparr>recv_len := 0, recv_cnt := 0,
             calls := calls ready_device @ [FrameStart, FrameDone]\<rparr>)"
proof -
  have h1: "state ready_device = ST_READY"
    by (simp add: ready_device_def)
  have h2: "bRequest (request CMD_DATA 0 0 0) = CMD_DATA"
    by (simp add: request_def)
  have h3: "wLength (request CMD_DATA 0 0 0) = 0"
    by (simp add: request_def)
  show ?thesis
    using h1 h2 h3 data_zero_needs_a_delivery_call [OF h1 h2 h3, of "display blank_gfx" "[]" 0]
    by blast
qed

text \<open>
  C5 as stated has the Data request itself call \<open>frame_done\<close>. The request alone calls
  \<open>frame_start\<close> only.
\<close>

theorem data_zero_command_alone_counterexample:
  "state ready_device = ST_READY \<and>
   usbFunctionSetup (display blank_gfx) (request CMD_DATA 0 0 0) ready_device
     = (USB_NO_MSG, ready_device\<lparr>calls := [Init, FrameStart]\<rparr>) \<and>
   FrameDone \<notin> set (calls (snd
     (usbFunctionSetup (display blank_gfx) (request CMD_DATA 0 0 0) ready_device)))"
  by (simp add: usbFunctionSetup_def display_call_def ready_device_def request_def
      CMD_DATA_def CMD_HELLO_def CMD_PROPS_def)

text \<open>
  C8. When a Data request is accepted while an earlier transfer is still short of its
  length, \<open>recv_len\<close> becomes the new length, \<open>recv_cnt\<close> becomes 0 and \<open>frame_start\<close> is
  called for the new transfer; no \<open>frame_done\<close> is called for the abandoned one.
\<close>

theorem new_data_abandons_transfer:
  assumes "state s = ST_READY" and "bRequest rq = CMD_DATA" and "bRequest rq' = CMD_DATA"
    and "\<forall>f\<in>set frags. length f \<le> 255"
    and "length (concat frags) < unat (wLength rq)"
  shows "recv_cnt (deliver (snd (usbFunctionSetup d rq s)) frags)
           < recv_len (deliver (snd (usbFunctionSetup d rq s)) frags) \<and>
         usbFunctionSetup d rq' (deliver (snd (usbFunctionSetup d rq s)) frags) =
           (USB_NO_MSG,
            s\<lparr>recv_len := wLength rq', recv_cnt := 0,
              calls := calls s @ [FrameStart] @ map SendByte (concat frags) @ [FrameStart]\<rparr>)"
proof -
  let ?s' = "s\<lparr>recv_len := wLength rq, recv_cnt := 0, calls := calls s @ [FrameStart]\<rparr>"
  have st: "snd (usbFunctionSetup d rq s) = ?s'"
    using assms(1,2) by (simp add: data_accepted)
  have rem: "remaining ?s' = unat (wLength rq)"
    by (simp add: remaining_def)
  have "list_all (\<lambda>f. length f \<le> 255) frags"
    using assms(4) by (simp add: list_all_iff)
  moreover have lt: "length (concat frags) < remaining ?s'"
    using assms(5) rem by simp
  ultimately have dl: "deliver ?s' frags =
      ?s'\<lparr>recv_cnt := recv_cnt ?s' + of_nat (length (concat frags)),
          calls := calls ?s' @ map SendByte (concat frags)\<rparr>"
    by (rule deliver_incomplete)
  have "unat (recv_cnt ?s' + of_nat (length (concat frags)))
      = unat (recv_cnt ?s') + length (concat frags)"
    using lt by (simp only: unat_cnt_add)
  then have "unat (recv_cnt (deliver ?s' frags)) < unat (recv_len (deliver ?s' frags))"
    using assms(5) unfolding dl by simp
  then have "recv_cnt (deliver ?s' frags) < recv_len (deliver ?s' frags)"
    by (simp add: word_less_nat_alt)
  moreover have "state (deliver ?s' frags) = ST_READY"
    unfolding dl using assms(1) by simp
  then have "usbFunctionSetup d rq' (deliver ?s' frags) =
      (USB_NO_MSG, (deliver ?s' frags)\<lparr>recv_len := wLength rq', recv_cnt := 0,
          calls := calls (deliver ?s' frags) @ [FrameStart]\<rparr>)"
    using assms(3) by (rule data_accepted)
  ultimately show ?thesis
    unfolding st by (simp add: dl)
qed

theorem new_data_abandons_transfer_witness:
  "state ready_device = ST_READY \<and> bRequest (request CMD_DATA 0 0 3) = CMD_DATA \<and>
   bRequest (request CMD_DATA 0 0 2) = CMD_DATA \<and>
   length [5, 6 :: u8] \<le> 255 \<and>
   length (concat [[5, 6 :: u8]]) < unat (wLength (request CMD_DATA 0 0 3)) \<and>
   usbFunctionSetup (display blank_gfx) (request CMD_DATA 0 0 2)
     (deliver (snd (usbFunctionSetup (display blank_gfx) (request CMD_DATA 0 0 3)
        ready_device)) [[5, 6]]) =
     (USB_NO_MSG,
      ready_device\<lparr>recv_len := 2, recv_cnt := 0,
        calls := [Init, FrameStart, SendByte 5, SendByte 6, FrameStart]\<rparr>)"
proof -
  have h1: "state ready_device = ST_READY"
    by (simp add: ready_device_def)
  have h2: "bRequest (request CMD_DATA 0 0 3) = CMD_DATA"
    by (simp add: request_def)
  have h3: "bRequest (request CMD_DATA 0 0 2) = CMD_DATA"
    by (simp add: request_def)
  have h4: "\<forall>f\<in>set [[5, 6 :: u8]]. length f \<le> 255"
    by simp
  have h5: "length (concat [[5, 6 :: u8]]) < unat (wLength (request CMD_DATA 0 0 3))"
    by (simp add: request_def)
  have w: "wLength (request CMD_DATA 0 0 2) = 2" and c: "calls ready_device = [Init]"
    by (simp_all add: request_def ready_device_def)
  show ?thesis
    using h1 h2 h3 h4 h5 new_data_abandons_transfer [OF h1 h2 h3 h4 h5, of "display blank_gfx"]
    by (simp add: w c)
qed

text \<open>
  C10. When \<open>usbFunctionWrite\<close> is called with \<open>recv_cnt\<close> already equal to \<open>recv_len\<close>,
  no byte is sent to the display and \<open>recv_cnt\<close> stays, but \<open>display.frame_done()\<close> is
  called again and 1 is returned; every further such call repeats it.
\<close>

theorem write_after_completion_repeats_frame_done:
  assumes "recv_cnt s = recv_len s"
  shows "usbFunctionWrite data len s = (1, s\<lparr>calls := calls s @ [FrameDone]\<rparr>) \<and>
         deliver s frags = s\<lparr>calls := calls s @ replicate (length frags) FrameDone\<rparr>"
proof
  have w: "write_loop data len 0 s = s"
    using assms by (subst write_loop.simps) simp
  show "usbFunctionWrite data len s = (1, s\<lparr>calls := calls s @ [FrameDone]\<rparr>)"
    using assms by (simp add: usbFunctionWrite_def w display_call_def)
  show "deliver s frags = s\<lparr>calls := calls s @ replicate (length frags) FrameDone\<rparr>"
    using assms by (rule deliver_when_complete)
qed

theorem write_after_completion_witness:
  "recv_cnt ready_device = recv_len ready_device \<and>
   usbFunctionWrite [7, 9] 2 ready_device
     = (1, ready_device\<lparr>calls := [Init, FrameDone]\<rparr>) \<and>
   calls (deliver ready_device [[7, 9], [1], []]) = [Init, FrameDone, FrameDone, FrameDone]"
proof -
  have h: "recv_cnt ready_device = recv_len ready_device"
    by (simp add: ready_device_def)
  show ?thesis
    using h write_after_completion_repeats_frame_done [OF h, of "[7, 9]" 2 "[[7, 9], [1], []]"]
    by (simp add: ready_device_def)
qed

end
